theory Spec2Isabelle
  imports Main "HOL-Library.Word"
begin

section \<open>The allocation failure injector of util/alloc\_failure\_injector.hh\<close>

text \<open>
  The header declares one class, \<^verbatim>\<open>seastar::memory::alloc_failure_injector\<close>, one
  instance of it per thread (\<^verbatim>\<open>the_alloc_failure_injector\<close>) and the scoped
  \<^verbatim>\<open>disable_failure_guard\<close>. Every member function is embedded below as a function
  on the state of that instance.
\<close>

subsection \<open>Data\<close>

type_synonym uint64_t = "64 word"

text \<open>\<^verbatim>\<open>std::numeric_limits<uint64_t>::max()\<close>\<close>

definition uint64_max :: uint64_t where
  "uint64_max = 0xFFFFFFFFFFFFFFFF"

text \<open>
  What a call can throw: \<^verbatim>\<open>std::bad_alloc\<close> (the default callback), or whatever an
  installed callback throws, identified by its \<^verbatim>\<open>what()\<close> text.
\<close>

datatype exn = bad_alloc | other_exception string

text \<open>
  A \<^verbatim>\<open>void\<close> call either returns or throws. The injector is mutated in place, so the
  state reached so far survives a throw and is carried by both results.
\<close>

datatype 'a outcome = Returns 'a | Throws exn 'a

fun state_of :: "'a outcome \<Rightarrow> 'a" where
  "state_of (Returns s) = s"
| "state_of (Throws x s) = s"

fun returns :: "'a outcome \<Rightarrow> bool" where
  "returns (Returns s) = True"
| "returns (Throws x s) = False"

text \<open>
  The members of the class, in the order of lines 50 to 54: \<^verbatim>\<open>_alloc_count\<close>,
  \<^verbatim>\<open>_fail_at\<close>, \<^verbatim>\<open>_on_alloc_failure\<close>, \<^verbatim>\<open>_failed\<close>, \<^verbatim>\<open>_suppressed\<close> (an
  Isabelle name cannot start with an underscore). The selectors \<open>alloc_count\<close> and
  \<open>failed\<close> are at the same time the two \<^verbatim>\<open>const\<close> accessors \<^verbatim>\<open>alloc_count()\<close>
  (line 70) and \<^verbatim>\<open>failed()\<close> (line 86), which return the member and change nothing.

  A \<^verbatim>\<open>std::function<void()>\<close> is a closure: it acts on memory outside the injector
  and returns or throws. That memory is the component \<open>env\<close> of type \<open>'e\<close>, and a
  callback is a function from the environment to the outcome with the new environment.
  A callback that calls back into the injector it is installed in is outside this model.

  \<open>cb_invocations\<close> is a history variable, not a member: the number of calls of
  \<^verbatim>\<open>_on_alloc_failure\<close> made so far. No branch of the code reads it.
\<close>

record 'e alloc_failure_injector =
  alloc_count :: uint64_t
  fail_at :: uint64_t
  on_alloc_failure :: "'e \<Rightarrow> 'e outcome"
  failed :: bool
  suppressed :: uint64_t
  env :: 'e
  cb_invocations :: nat

text \<open>Line 52: the default callback, \<^verbatim>\<open>[] { throw std::bad_alloc(); }\<close>.\<close>

definition default_on_alloc_failure :: "'e \<Rightarrow> 'e outcome" where
  "default_on_alloc_failure e = Throws bad_alloc e"

text \<open>
  \<^verbatim>\<open>the_alloc_failure_injector\<close> (line 96) as a thread finds it: an object of
  thread storage duration is zero-initialised before its default member initialisers
  run, so the two members without an initialiser start as \<open>0\<close> and \<open>False\<close>.
\<close>

definition the_alloc_failure_injector :: "'e \<Rightarrow> 'e alloc_failure_injector" where
  "the_alloc_failure_injector e =
     \<lparr>alloc_count = 0, fail_at = uint64_max, on_alloc_failure = default_on_alloc_failure,
      failed = False, suppressed = 0, env = e, cb_invocations = 0\<rparr>"

subsection \<open>Member functions\<close>

text \<open>Lines 81 to 83.\<close>

definition cancel :: "'e alloc_failure_injector \<Rightarrow> 'e alloc_failure_injector" where
  "cancel s = s\<lparr>fail_at := uint64_max\<rparr>"

text \<open>
  The call \<^verbatim>\<open>_on_alloc_failure()\<close> of line 64: the stored callback runs on the
  environment, and the history variable counts the call.
\<close>

definition invoke_on_alloc_failure ::
  "'e alloc_failure_injector \<Rightarrow> 'e alloc_failure_injector outcome" where
  "invoke_on_alloc_failure s =
     (case on_alloc_failure s (env s) of
        Returns e \<Rightarrow> Returns (s\<lparr>env := e, cb_invocations := Suc (cb_invocations s)\<rparr>)
      | Throws x e \<Rightarrow> Throws x (s\<lparr>env := e, cb_invocations := Suc (cb_invocations s)\<rparr>))"

text \<open>
  Lines 57 to 67. The increment of line 66 follows the \<^verbatim>\<open>if\<close> block of lines 61 to
  65, so it runs whenever control leaves that block normally: when the threshold is not
  reached, and also when it is reached and the callback returns. A throw of the
  callback leaves the function before line 66.
\<close>

definition on_alloc_point ::
  "'e alloc_failure_injector \<Rightarrow> 'e alloc_failure_injector outcome" where
  "on_alloc_point s =
     (if suppressed s \<noteq> 0 then Returns s
      else
        (case (if fail_at s \<le> alloc_count s
               then invoke_on_alloc_failure (cancel (s\<lparr>failed := True\<rparr>))
               else Returns s) of
           Throws x s' \<Rightarrow> Throws x s'
         | Returns s' \<Rightarrow> Returns (s'\<lparr>alloc_count := alloc_count s' + 1\<rparr>)))"

text \<open>Lines 75 to 78. The sum is a \<^verbatim>\<open>uint64_t\<close> sum: it wraps at \<open>2 ^ 64\<close>.\<close>

definition fail_after ::
  "uint64_t \<Rightarrow> 'e alloc_failure_injector \<Rightarrow> 'e alloc_failure_injector" where
  "fail_after count s = s\<lparr>fail_at := alloc_count s + count, failed := False\<rparr>"

text \<open>Lines 91 to 93.\<close>

definition set_alloc_failure_callback ::
  "('e \<Rightarrow> 'e outcome) \<Rightarrow> 'e alloc_failure_injector \<Rightarrow> 'e alloc_failure_injector" where
  "set_alloc_failure_callback cb s = s\<lparr>on_alloc_failure := cb\<rparr>"

subsection \<open>The suppression guard\<close>

text \<open>
  Lines 105 to 108, the variant compiled under
  \<^verbatim>\<open>SEASTAR_ENABLE_ALLOC_FAILURE_INJECTION\<close>: the constructor and the destructor of
  \<^verbatim>\<open>disable_failure_guard\<close>, acting on the thread's injector.
\<close>

definition disable_failure_guard_ctor ::
  "'e alloc_failure_injector \<Rightarrow> 'e alloc_failure_injector" where
  "disable_failure_guard_ctor s = s\<lparr>suppressed := suppressed s + 1\<rparr>"

definition disable_failure_guard_dtor ::
  "'e alloc_failure_injector \<Rightarrow> 'e alloc_failure_injector" where
  "disable_failure_guard_dtor s = s\<lparr>suppressed := suppressed s - 1\<rparr>"

subsection \<open>Callers\<close>

text \<open>
  Code under test that reaches \<open>n\<close> allocation points in a row: the hook is called
  \<open>n\<close> times, and the first throw leaves the code under test.
\<close>

fun on_alloc_points ::
  "nat \<Rightarrow> 'e alloc_failure_injector \<Rightarrow> 'e alloc_failure_injector outcome" where
  "on_alloc_points 0 s = Returns s"
| "on_alloc_points (Suc n) s =
     (case on_alloc_point s of
        Throws x s' \<Rightarrow> Throws x s'
      | Returns s' \<Rightarrow> on_alloc_points n s')"

text \<open>
  A test driver: any sequence of calls of the public interface and of guard
  constructions and destructions. As in the loop of lines 36 to 46, the driver catches
  what a call throws and goes on with the state the call left.
\<close>

datatype 'e call =
    On_alloc_point
  | Alloc_count
  | Fail_after uint64_t
  | Cancel
  | Failed
  | Set_alloc_failure_callback "'e \<Rightarrow> 'e outcome"
  | Guard_ctor
  | Guard_dtor

fun do_call ::
  "'e call \<Rightarrow> 'e alloc_failure_injector \<Rightarrow> 'e alloc_failure_injector outcome" where
  "do_call On_alloc_point s = on_alloc_point s"
| "do_call Alloc_count s = Returns s"
| "do_call (Fail_after count) s = Returns (fail_after count s)"
| "do_call Cancel s = Returns (cancel s)"
| "do_call Failed s = Returns s"
| "do_call (Set_alloc_failure_callback cb) s = Returns (set_alloc_failure_callback cb s)"
| "do_call Guard_ctor s = Returns (disable_failure_guard_ctor s)"
| "do_call Guard_dtor s = Returns (disable_failure_guard_dtor s)"

fun run :: "'e call list \<Rightarrow> 'e alloc_failure_injector \<Rightarrow> 'e alloc_failure_injector" where
  "run [] s = s"
| "run (c # cs) s = run cs (state_of (do_call c s))"

fun is_fail_after :: "'e call \<Rightarrow> bool" where
  "is_fail_after (Fail_after count) = True"
| "is_fail_after c = False"

fun no_fail_after :: "'e call list \<Rightarrow> bool" where
  "no_fail_after [] = True"
| "no_fail_after (c # cs) = (\<not> is_fail_after c \<and> no_fail_after cs)"

text \<open>The number of hook calls in a sequence of calls.\<close>

fun hook_calls :: "'e call list \<Rightarrow> nat" where
  "hook_calls [] = 0"
| "hook_calls (On_alloc_point # cs) = Suc (hook_calls cs)"
| "hook_calls (c # cs) = hook_calls cs"

section \<open>Basic facts\<close>

subsection \<open>Arithmetic of \<^verbatim>\<open>uint64_t\<close>\<close>

lemma uint64_max_eq: "uint64_max = - 1"
  by (simp add: uint64_max_def)

lemma uint64_max_neq_0: "uint64_max \<noteq> 0"
  by (simp add: uint64_max_def)

lemma unat_uint64_max: "unat uint64_max = 2 ^ 64 - 1"
  by (simp add: uint64_max_def)

lemma unat_uint64_bound: "unat w \<le> 2 ^ 64 - 1" for w :: uint64_t
  using unsigned_less [of w, where 'a = nat] by simp

lemma unat_succ: "unat w < 2 ^ 64 - 1 \<Longrightarrow> unat (w + 1) = Suc (unat w)" for w :: uint64_t
  by (simp add: unat_word_ariths)

lemma uint64_max_le_iff: "uint64_max \<le> w \<longleftrightarrow> unat w = 2 ^ 64 - 1"
  using unat_uint64_bound [of w] by (simp add: word_le_nat_alt unat_uint64_max)

lemma neq_minus_one_iff: "w \<noteq> - 1 \<longleftrightarrow> unat w < 2 ^ 64 - 1" for w :: uint64_t
proof -
  have "w = - 1 \<longleftrightarrow> unat w = unat (- 1 :: uint64_t)"
    by (simp only: word_unat_eq_iff)
  moreover have "unat (- 1 :: uint64_t) = 2 ^ 64 - 1"
    using unat_uint64_max by (simp add: uint64_max_eq)
  ultimately show ?thesis
    using unat_uint64_bound [of w] by auto
qed

lemma succ_neq_0: "w \<noteq> - 1 \<Longrightarrow> w + 1 \<noteq> 0" for w :: uint64_t
  by (simp add: eq_neg_iff_add_eq_0)

subsection \<open>One call of the hook, by the branch it takes\<close>

lemma on_alloc_point_suppressed:
  "suppressed s \<noteq> 0 \<Longrightarrow> on_alloc_point s = Returns s"
  by (simp add: on_alloc_point_def)

lemma on_alloc_point_counted:
  "suppressed s = 0 \<Longrightarrow> \<not> fail_at s \<le> alloc_count s \<Longrightarrow>
   on_alloc_point s = Returns (s\<lparr>alloc_count := alloc_count s + 1\<rparr>)"
  by (simp add: on_alloc_point_def)

lemma on_alloc_point_trigger_returns:
  "suppressed s = 0 \<Longrightarrow> fail_at s \<le> alloc_count s \<Longrightarrow>
   on_alloc_failure s (env s) = Returns e \<Longrightarrow>
   on_alloc_point s =
     Returns (s\<lparr>alloc_count := alloc_count s + 1, fail_at := uint64_max, failed := True,
                env := e, cb_invocations := Suc (cb_invocations s)\<rparr>)"
  by (simp add: on_alloc_point_def invoke_on_alloc_failure_def cancel_def)

lemma on_alloc_point_trigger_throws:
  "suppressed s = 0 \<Longrightarrow> fail_at s \<le> alloc_count s \<Longrightarrow>
   on_alloc_failure s (env s) = Throws x e \<Longrightarrow>
   on_alloc_point s =
     Throws x (s\<lparr>fail_at := uint64_max, failed := True, env := e,
                 cb_invocations := Suc (cb_invocations s)\<rparr>)"
  by (simp add: on_alloc_point_def invoke_on_alloc_failure_def cancel_def)

lemma on_alloc_points_suppressed:
  "suppressed s \<noteq> 0 \<Longrightarrow> on_alloc_points n s = Returns s"
  by (induction n) (simp_all add: on_alloc_point_suppressed)

subsection \<open>Hook calls below the threshold\<close>

lemma on_alloc_points_below_threshold:
  "suppressed s = 0 \<Longrightarrow> unat (alloc_count s) + n \<le> unat (fail_at s) \<Longrightarrow>
   on_alloc_points n s = Returns (s\<lparr>alloc_count := alloc_count s + of_nat n\<rparr>)"
proof (induction n arbitrary: s)
  case 0
  then show ?case by simp
next
  case (Suc n)
  let ?s1 = "s\<lparr>alloc_count := alloc_count s + 1\<rparr>"
  from Suc.prems have lt: "unat (alloc_count s) < unat (fail_at s)"
    by simp
  then have "\<not> fail_at s \<le> alloc_count s"
    by (simp add: word_le_nat_alt)
  with Suc.prems(1) have step: "on_alloc_point s = Returns ?s1"
    by (simp add: on_alloc_point_counted)
  from lt unat_uint64_bound [of "fail_at s"]
  have "unat (alloc_count s + 1) = Suc (unat (alloc_count s))"
    by (simp add: unat_succ)
  with Suc.prems have "unat (alloc_count ?s1) + n \<le> unat (fail_at ?s1)"
    by simp
  moreover have "suppressed ?s1 = 0"
    using Suc.prems(1) by simp
  ultimately have
    "on_alloc_points n ?s1 = Returns (?s1\<lparr>alloc_count := alloc_count ?s1 + of_nat n\<rparr>)"
    by (rule Suc.IH [rotated])
  with step show ?case
    by (simp add: add.assoc add.commute)
qed

subsection \<open>What one call leaves behind\<close>

lemma on_alloc_point_cb_invocations:
  "cb_invocations (state_of (on_alloc_point s)) =
     (if suppressed s = 0 \<and> fail_at s \<le> alloc_count s
      then Suc (cb_invocations s) else cb_invocations s)"
  by (simp add: on_alloc_point_def invoke_on_alloc_failure_def cancel_def split: outcome.splits)

lemma on_alloc_point_failed:
  "failed (state_of (on_alloc_point s)) =
     (failed s \<or> suppressed s = 0 \<and> fail_at s \<le> alloc_count s)"
  by (simp add: on_alloc_point_def invoke_on_alloc_failure_def cancel_def split: outcome.splits)

lemma on_alloc_point_fail_at:
  "fail_at (state_of (on_alloc_point s)) =
     (if suppressed s = 0 \<and> fail_at s \<le> alloc_count s then uint64_max else fail_at s)"
  by (simp add: on_alloc_point_def invoke_on_alloc_failure_def cancel_def split: outcome.splits)

lemma on_alloc_point_alloc_count:
  "alloc_count (state_of (on_alloc_point s)) = alloc_count s \<or>
   alloc_count (state_of (on_alloc_point s)) = alloc_count s + 1"
  by (simp add: on_alloc_point_def invoke_on_alloc_failure_def cancel_def split: outcome.splits)

lemma on_alloc_point_alloc_count_le:
  assumes "unat (alloc_count s) < 2 ^ 64 - 1"
  shows "unat (alloc_count (state_of (on_alloc_point s))) \<le> Suc (unat (alloc_count s))"
  using on_alloc_point_alloc_count [of s] unat_succ [OF assms] by auto

subsection \<open>Sequences of calls with no arming among them\<close>

lemma do_call_alloc_count:
  "c \<noteq> On_alloc_point \<Longrightarrow> alloc_count (state_of (do_call c s)) = alloc_count s"
  by (cases c) (simp_all add: fail_after_def cancel_def set_alloc_failure_callback_def
      disable_failure_guard_ctor_def disable_failure_guard_dtor_def)

lemma do_call_cb_invocations:
  "c \<noteq> On_alloc_point \<Longrightarrow> cb_invocations (state_of (do_call c s)) = cb_invocations s"
  by (cases c) (simp_all add: fail_after_def cancel_def set_alloc_failure_callback_def
      disable_failure_guard_ctor_def disable_failure_guard_dtor_def)

lemma do_call_failed:
  "c \<noteq> On_alloc_point \<Longrightarrow> \<not> is_fail_after c \<Longrightarrow> failed (state_of (do_call c s)) = failed s"
  by (cases c) (simp_all add: cancel_def set_alloc_failure_callback_def
      disable_failure_guard_ctor_def disable_failure_guard_dtor_def)

lemma do_call_fail_at:
  "c \<noteq> On_alloc_point \<Longrightarrow> \<not> is_fail_after c \<Longrightarrow>
   fail_at (state_of (do_call c s)) = fail_at s \<or> fail_at (state_of (do_call c s)) = uint64_max"
  by (cases c) (simp_all add: cancel_def set_alloc_failure_callback_def
      disable_failure_guard_ctor_def disable_failure_guard_dtor_def)

lemma hook_calls_other: "c \<noteq> On_alloc_point \<Longrightarrow> hook_calls (c # cs) = hook_calls cs"
  by (cases c) simp_all

lemma do_call_history:
  assumes "\<not> is_fail_after c"
  shows "cb_invocations s \<le> cb_invocations (state_of (do_call c s)) \<and>
         failed (state_of (do_call c s)) =
           (failed s \<or> cb_invocations s < cb_invocations (state_of (do_call c s)))"
proof (cases "c = On_alloc_point")
  case True
  then show ?thesis
    by (auto simp add: on_alloc_point_cb_invocations on_alloc_point_failed)
next
  case False
  with assms show ?thesis
    by (simp add: do_call_cb_invocations do_call_failed)
qed

lemma run_history:
  "no_fail_after cs \<Longrightarrow>
   cb_invocations s \<le> cb_invocations (run cs s) \<and>
   failed (run cs s) = (failed s \<or> cb_invocations s < cb_invocations (run cs s))"
proof (induction cs arbitrary: s)
  case Nil
  then show ?case by simp
next
  case (Cons c cs)
  let ?s1 = "state_of (do_call c s)"
  from Cons.prems have c: "\<not> is_fail_after c" and cs: "no_fail_after cs"
    by simp_all
  from do_call_history [OF c, of s] Cons.IH [OF cs, of ?s1] show ?case
    by auto
qed

lemma do_call_disarmed:
  assumes "fail_at s = uint64_max" and "\<not> is_fail_after c"
    and "unat (alloc_count s) + hook_calls (c # cs) < 2 ^ 64"
  shows "fail_at (state_of (do_call c s)) = uint64_max \<and>
         unat (alloc_count (state_of (do_call c s))) + hook_calls cs < 2 ^ 64 \<and>
         cb_invocations (state_of (do_call c s)) = cb_invocations s \<and>
         failed (state_of (do_call c s)) = failed s"
proof (cases "c = On_alloc_point")
  case True
  with assms(3) have small: "unat (alloc_count s) < 2 ^ 64 - 1"
    by simp
  with assms(1) have below: "\<not> fail_at s \<le> alloc_count s"
    by (simp add: uint64_max_le_iff)
  from on_alloc_point_alloc_count_le [OF small] assms(3) True
  have "unat (alloc_count (state_of (do_call c s))) + hook_calls cs < 2 ^ 64"
    by simp
  with True below assms(1) show ?thesis
    by (simp add: on_alloc_point_cb_invocations on_alloc_point_failed on_alloc_point_fail_at)
next
  case False
  with assms do_call_fail_at [OF False assms(2), of s] show ?thesis
    by (auto simp add: do_call_alloc_count do_call_cb_invocations do_call_failed hook_calls_other)
qed

lemma run_disarmed:
  "fail_at s = uint64_max \<Longrightarrow> no_fail_after cs \<Longrightarrow>
   unat (alloc_count s) + hook_calls cs < 2 ^ 64 \<Longrightarrow>
   cb_invocations (run cs s) = cb_invocations s \<and> failed (run cs s) = failed s"
proof (induction cs arbitrary: s)
  case Nil
  then show ?case by simp
next
  case (Cons c cs)
  let ?s1 = "state_of (do_call c s)"
  from Cons.prems have c: "\<not> is_fail_after c" and cs: "no_fail_after cs"
    by simp_all
  from do_call_disarmed [OF Cons.prems(1) c Cons.prems(3)]
  have 1: "fail_at ?s1 = uint64_max" and 2: "unat (alloc_count ?s1) + hook_calls cs < 2 ^ 64"
    and 3: "cb_invocations ?s1 = cb_invocations s" "failed ?s1 = failed s"
    by simp_all
  from Cons.IH [OF 1 cs 2] 3 show ?case
    by simp
qed

lemma run_at_most_once:
  "no_fail_after cs \<Longrightarrow> unat (alloc_count s) + hook_calls cs < 2 ^ 64 \<Longrightarrow>
   cb_invocations (run cs s) \<le> Suc (cb_invocations s)"
proof (induction cs arbitrary: s)
  case Nil
  then show ?case by simp
next
  case (Cons c cs)
  let ?s1 = "state_of (do_call c s)"
  from Cons.prems have c: "\<not> is_fail_after c" and cs: "no_fail_after cs"
    by simp_all
  show ?case
  proof (cases "c = On_alloc_point")
    case True
    with Cons.prems(2) have small: "unat (alloc_count s) < 2 ^ 64 - 1"
      by simp
    from on_alloc_point_alloc_count_le [OF small] Cons.prems(2) True
    have bound: "unat (alloc_count ?s1) + hook_calls cs < 2 ^ 64"
      by simp
    show ?thesis
    proof (cases "suppressed s = 0 \<and> fail_at s \<le> alloc_count s")
      case trig: True
      with True have "fail_at ?s1 = uint64_max" and "cb_invocations ?s1 = Suc (cb_invocations s)"
        by (simp_all add: on_alloc_point_fail_at on_alloc_point_cb_invocations)
      with run_disarmed [OF _ cs bound] show ?thesis
        by simp
    next
      case False
      with True have "cb_invocations ?s1 = cb_invocations s"
        by (simp add: on_alloc_point_cb_invocations)
      with Cons.IH [OF cs bound] show ?thesis
        by simp
    qed
  next
    case False
    with Cons.prems(2) have "unat (alloc_count ?s1) + hook_calls cs < 2 ^ 64"
      by (simp add: do_call_alloc_count hook_calls_other)
    from Cons.IH [OF cs this] False show ?thesis
      by (simp add: do_call_cb_invocations)
  qed
qed

lemma on_alloc_points_disarmed:
  assumes "fail_at s = uint64_max" and "unat (alloc_count s) + n < 2 ^ 64"
  shows "returns (on_alloc_points n s) \<and>
         cb_invocations (state_of (on_alloc_points n s)) = cb_invocations s \<and>
         failed (state_of (on_alloc_points n s)) = failed s"
proof (cases "suppressed s = 0")
  case True
  from assms have "unat (alloc_count s) + n \<le> unat (fail_at s)"
    by (simp add: unat_uint64_max)
  from on_alloc_points_below_threshold [OF True this] show ?thesis
    by simp
next
  case False
  then show ?thesis
    by (simp add: on_alloc_points_suppressed)
qed

section \<open>The claims\<close>

subsection \<open>Arming and counting\<close>

text \<open>
  Claim C1, as the code has it. From a state with suppression depth zero, after
  \<^verbatim>\<open>fail_after(k)\<close> the first \<open>k\<close> hook calls all return, leave \<open>failed\<close> false and
  do not invoke the callback, and the call after them sets \<open>failed\<close> and invokes the
  callback exactly once, provided the sum of \<open>alloc_count\<close> and \<open>k\<close> is below \<open>2 ^ 64\<close>,
  so that line 76 does not wrap.
\<close>

theorem fail_after_counts_exactly:
  assumes "suppressed s = 0" and "unat (alloc_count s) + unat k < 2 ^ 64"
  shows "on_alloc_points (unat k) (fail_after k s) =
           Returns (s\<lparr>alloc_count := alloc_count s + k, fail_at := alloc_count s + k,
                      failed := False\<rparr>) \<and>
         failed (state_of (on_alloc_point
           (s\<lparr>alloc_count := alloc_count s + k, fail_at := alloc_count s + k,
              failed := False\<rparr>))) \<and>
         cb_invocations (state_of (on_alloc_point
           (s\<lparr>alloc_count := alloc_count s + k, fail_at := alloc_count s + k,
              failed := False\<rparr>))) = Suc (cb_invocations s)"
proof -
  let ?a = "fail_after k s"
  let ?sk = "s\<lparr>alloc_count := alloc_count s + k, fail_at := alloc_count s + k, failed := False\<rparr>"
  have sum: "unat (alloc_count s + k) = unat (alloc_count s) + unat k"
    using assms(2) by (simp add: unat_word_ariths)
  have "suppressed ?a = 0"
    using assms(1) by (simp add: fail_after_def)
  moreover have "unat (alloc_count ?a) + unat k \<le> unat (fail_at ?a)"
    using sum by (simp add: fail_after_def)
  ultimately have "on_alloc_points (unat k) ?a =
      Returns (?a\<lparr>alloc_count := alloc_count ?a + of_nat (unat k)\<rparr>)"
    by (rule on_alloc_points_below_threshold)
  then have first: "on_alloc_points (unat k) ?a = Returns ?sk"
    by (simp add: fail_after_def)
  have "failed (state_of (on_alloc_point ?sk)) \<and>
        cb_invocations (state_of (on_alloc_point ?sk)) = Suc (cb_invocations s)"
    using assms(1)
    by (simp add: on_alloc_point_def invoke_on_alloc_failure_def cancel_def split: outcome.splits)
  with first show ?thesis by simp
qed

text \<open>The statement at \<open>k = 2\<close> on the injector a thread starts with.\<close>

theorem fail_after_counts_exactly_witness:
  "on_alloc_points 2 (fail_after 2 (the_alloc_failure_injector ())) =
     Returns \<lparr>alloc_count = 2, fail_at = 2, on_alloc_failure = default_on_alloc_failure,
              failed = False, suppressed = 0, env = (), cb_invocations = 0\<rparr> \<and>
   failed (state_of (on_alloc_point
     \<lparr>alloc_count = 2, fail_at = 2, on_alloc_failure = default_on_alloc_failure,
      failed = False, suppressed = 0, env = (), cb_invocations = 0\<rparr>)) \<and>
   cb_invocations (state_of (on_alloc_point
     \<lparr>alloc_count = 2, fail_at = 2, on_alloc_failure = default_on_alloc_failure,
      failed = False, suppressed = 0, env = (), cb_invocations = 0\<rparr>)) = 1"
proof -
  have h1: "suppressed (the_alloc_failure_injector ()) = 0"
    by (simp add: the_alloc_failure_injector_def)
  have h2: "unat (alloc_count (the_alloc_failure_injector ())) + unat (2 :: uint64_t) < 2 ^ 64"
    by (simp add: the_alloc_failure_injector_def)
  from fail_after_counts_exactly [OF h1 h2] show ?thesis
    by (simp add: the_alloc_failure_injector_def)
qed

text \<open>
  Without the bound the claim fails. After one counted allocation point,
  \<^verbatim>\<open>fail_after(UINT64_MAX)\<close> computes \<open>1 + (2 ^ 64 - 1)\<close>, which wraps to \<open>0\<close>, and
  the first of the \<open>2 ^ 64 - 1\<close> hook calls already throws.
\<close>

theorem fail_after_wraps_counterexample:
  "on_alloc_points (unat uint64_max)
     (fail_after uint64_max (state_of (on_alloc_point (the_alloc_failure_injector ())))) =
   Throws bad_alloc
     \<lparr>alloc_count = 1, fail_at = uint64_max, on_alloc_failure = default_on_alloc_failure,
      failed = True, suppressed = 0, env = (), cb_invocations = 1\<rparr>"
proof -
  have one: "state_of (on_alloc_point (the_alloc_failure_injector ())) =
      \<lparr>alloc_count = 1, fail_at = uint64_max, on_alloc_failure = default_on_alloc_failure,
       failed = False, suppressed = 0, env = (), cb_invocations = 0\<rparr>"
    by (simp add: on_alloc_point_def the_alloc_failure_injector_def uint64_max_neq_0)
  have arm: "fail_after uint64_max
      \<lparr>alloc_count = 1, fail_at = uint64_max, on_alloc_failure = default_on_alloc_failure,
       failed = False, suppressed = 0, env = (), cb_invocations = 0\<rparr> =
      \<lparr>alloc_count = 1, fail_at = 0, on_alloc_failure = default_on_alloc_failure,
       failed = False, suppressed = 0, env = (), cb_invocations = 0\<rparr>"
    by (simp add: fail_after_def uint64_max_eq)
  have n: "unat uint64_max = Suc 18446744073709551614"
    by (simp add: unat_uint64_max)
  show ?thesis
    unfolding one arm n on_alloc_points.simps
    by (simp add: on_alloc_point_def invoke_on_alloc_failure_def cancel_def
        default_on_alloc_failure_def)
qed

subsection \<open>The count at a triggering call\<close>

text \<open>
  Claim C2, as the code has it. When a hook call triggers a failure and the callback
  throws, as the default callback does, \<open>alloc_count\<close> afterwards is what it was before
  the call: the throw leaves the function before the increment of line 66, so the
  triggering call is not counted.
\<close>

theorem throwing_trigger_not_counted:
  assumes "suppressed s = 0" and "fail_at s \<le> alloc_count s"
    and "on_alloc_failure s (env s) = Throws x e"
  shows "on_alloc_point s =
           Throws x (s\<lparr>fail_at := uint64_max, failed := True, env := e,
                       cb_invocations := Suc (cb_invocations s)\<rparr>) \<and>
         alloc_count (state_of (on_alloc_point s)) = alloc_count s"
  using assms by (simp add: on_alloc_point_trigger_throws [where x = x and e = e])

text \<open>
  The statement for the default callback, armed with \<^verbatim>\<open>fail_after(0)\<close>.
\<close>

theorem throwing_trigger_not_counted_witness:
  "on_alloc_point (fail_after 0 (the_alloc_failure_injector ())) =
     Throws bad_alloc
       \<lparr>alloc_count = 0, fail_at = uint64_max, on_alloc_failure = default_on_alloc_failure,
        failed = True, suppressed = 0, env = (), cb_invocations = 1\<rparr> \<and>
   alloc_count (state_of (on_alloc_point (fail_after 0 (the_alloc_failure_injector ())))) = 0"
proof -
  let ?s = "fail_after 0 (the_alloc_failure_injector ())"
  have h1: "suppressed ?s = 0"
    by (simp add: fail_after_def the_alloc_failure_injector_def)
  have h2: "fail_at ?s \<le> alloc_count ?s"
    by (simp add: fail_after_def the_alloc_failure_injector_def)
  have h3: "on_alloc_failure ?s (env ?s) = Throws bad_alloc ()"
    by (simp add: fail_after_def the_alloc_failure_injector_def default_on_alloc_failure_def)
  from throwing_trigger_not_counted [OF h1 h2 h3] show ?thesis
    by (simp add: fail_after_def the_alloc_failure_injector_def)
qed

text \<open>
  Stated for every triggering call, the claim fails: when the callback returns, line 66
  runs after line 64. On the injector a thread starts with, with a callback installed
  that counts its calls in the environment and the schedule armed by
  \<^verbatim>\<open>fail_after(0)\<close>, the hook call triggers (\<open>failed\<close> is set, the callback has run
  once) and \<open>alloc_count\<close> goes from \<open>0\<close> to \<open>1\<close>.
\<close>

theorem returning_trigger_counted_counterexample:
  "failed (state_of (on_alloc_point (set_alloc_failure_callback (\<lambda>n. Returns (Suc n))
      (fail_after 0 (the_alloc_failure_injector (0 :: nat)))))) \<and>
   env (state_of (on_alloc_point (set_alloc_failure_callback (\<lambda>n. Returns (Suc n))
      (fail_after 0 (the_alloc_failure_injector (0 :: nat)))))) = 1 \<and>
   alloc_count (set_alloc_failure_callback (\<lambda>n. Returns (Suc n))
      (fail_after 0 (the_alloc_failure_injector (0 :: nat)))) = 0 \<and>
   alloc_count (state_of (on_alloc_point (set_alloc_failure_callback (\<lambda>n. Returns (Suc n))
      (fail_after 0 (the_alloc_failure_injector (0 :: nat)))))) = 1"
  by (simp add: on_alloc_point_def invoke_on_alloc_failure_def cancel_def fail_after_def
      set_alloc_failure_callback_def the_alloc_failure_injector_def)

subsection \<open>A callback that returns\<close>

text \<open>
  Claim C3. Let the callback be replaced through \<^verbatim>\<open>set_alloc_failure_callback\<close> by a
  function that returns normally. On the scheduled hook call (suppression depth zero and
  \<open>alloc_count\<close> at or above \<open>fail_at\<close>) that callback is invoked exactly once, the hook
  returns normally, and \<open>failed\<close> is true afterwards.
\<close>

theorem recording_callback_invoked_once:
  assumes "suppressed s = 0" and "fail_at s \<le> alloc_count s" and "cb (env s) = Returns e"
  shows "on_alloc_point (set_alloc_failure_callback cb s) =
           Returns (s\<lparr>alloc_count := alloc_count s + 1, fail_at := uint64_max,
                      on_alloc_failure := cb, failed := True, env := e,
                      cb_invocations := Suc (cb_invocations s)\<rparr>) \<and>
         returns (on_alloc_point (set_alloc_failure_callback cb s)) \<and>
         failed (state_of (on_alloc_point (set_alloc_failure_callback cb s))) \<and>
         cb_invocations (state_of (on_alloc_point (set_alloc_failure_callback cb s))) =
           Suc (cb_invocations s)"
  using assms
  by (simp add: on_alloc_point_trigger_returns [where e = e] set_alloc_failure_callback_def)

text \<open>
  A recorder that counts its calls in the environment, installed on an injector armed
  with \<^verbatim>\<open>fail_after(0)\<close>: after the hook call the recorder has run once.
\<close>

theorem recording_callback_invoked_once_witness:
  "on_alloc_point (set_alloc_failure_callback (\<lambda>n. Returns (Suc n))
      (fail_after 0 (the_alloc_failure_injector (0 :: nat)))) =
     Returns \<lparr>alloc_count = 1, fail_at = uint64_max, on_alloc_failure = (\<lambda>n. Returns (Suc n)),
              failed = True, suppressed = 0, env = 1, cb_invocations = 1\<rparr>"
proof -
  let ?s = "fail_after 0 (the_alloc_failure_injector (0 :: nat))"
  have h1: "suppressed ?s = 0"
    by (simp add: fail_after_def the_alloc_failure_injector_def)
  have h2: "fail_at ?s \<le> alloc_count ?s"
    by (simp add: fail_after_def the_alloc_failure_injector_def)
  have h3: "(\<lambda>n. Returns (Suc n)) (env ?s) = Returns 1"
    by (simp add: fail_after_def the_alloc_failure_injector_def)
  from recording_callback_invoked_once
    [where cb = "\<lambda>n. Returns (Suc n)" and s = ?s and e = 1, OF h1 h2 h3]
  show ?thesis
    by (simp add: fail_after_def the_alloc_failure_injector_def)
qed

subsection \<open>Suppression\<close>

text \<open>
  Claim C4. In every state with a nonzero suppression depth a hook call returns the
  state as it was, every member and the callback's call count included, whether or not
  \<open>alloc_count\<close> has reached \<open>fail_at\<close>; so does any number of hook calls. Hook calls
  made under a guard leave the state the guard's constructor produced, and the
  destructor then gives back the state from before the guard: the schedule resumes
  where it was.
\<close>

theorem suppressed_hook_changes_nothing:
  "(suppressed s \<noteq> 0 \<longrightarrow> on_alloc_point s = Returns s \<and> on_alloc_points n s = Returns s) \<and>
   (suppressed s \<noteq> - 1 \<longrightarrow>
      on_alloc_points n (disable_failure_guard_ctor s) = Returns (disable_failure_guard_ctor s) \<and>
      disable_failure_guard_dtor (disable_failure_guard_ctor s) = s)"
  by (simp add: on_alloc_point_suppressed on_alloc_points_suppressed disable_failure_guard_ctor_def
      disable_failure_guard_dtor_def succ_neq_0)

text \<open>
  An injector whose schedule is due (\<^verbatim>\<open>fail_after(0)\<close>), under one guard: one hook
  call and three hook calls change nothing, and the destructor restores the armed state.
\<close>

theorem suppressed_hook_changes_nothing_witness:
  "on_alloc_point (disable_failure_guard_ctor (fail_after 0 (the_alloc_failure_injector ()))) =
     Returns (disable_failure_guard_ctor (fail_after 0 (the_alloc_failure_injector ()))) \<and>
   on_alloc_points 3 (disable_failure_guard_ctor (fail_after 0 (the_alloc_failure_injector ()))) =
     Returns (disable_failure_guard_ctor (fail_after 0 (the_alloc_failure_injector ()))) \<and>
   disable_failure_guard_dtor (disable_failure_guard_ctor
     (fail_after 0 (the_alloc_failure_injector ()))) = fail_after 0 (the_alloc_failure_injector ()) \<and>
   fail_at (fail_after 0 (the_alloc_failure_injector ())) \<le>
     alloc_count (fail_after 0 (the_alloc_failure_injector ()))"
proof -
  let ?s = "fail_after 0 (the_alloc_failure_injector ())"
  have h1: "suppressed (disable_failure_guard_ctor ?s) \<noteq> 0"
    by (simp add: disable_failure_guard_ctor_def fail_after_def the_alloc_failure_injector_def)
  have h2: "suppressed ?s \<noteq> - 1"
    by (simp add: fail_after_def the_alloc_failure_injector_def)
  have due: "fail_at ?s \<le> alloc_count ?s"
    by (simp add: fail_after_def the_alloc_failure_injector_def)
  from suppressed_hook_changes_nothing [of "disable_failure_guard_ctor ?s" 3] h1
    suppressed_hook_changes_nothing [of ?s 3] h2 due
  show ?thesis by blast
qed

text \<open>
  Claim C5. The constructor of a guard adds one to \<open>suppressed\<close> and the destructor
  subtracts one; two constructions followed by two destructions give back the state
  they started from. Starting from active injection (\<open>suppressed\<close> zero), after two
  constructions and one destruction \<open>suppressed\<close> is still nonzero, and after the second
  destruction it is zero again.
\<close>

theorem guards_nest:
  "suppressed (disable_failure_guard_ctor s) = suppressed s + 1 \<and>
   suppressed (disable_failure_guard_dtor s) = suppressed s - 1 \<and>
   disable_failure_guard_dtor (disable_failure_guard_dtor
      (disable_failure_guard_ctor (disable_failure_guard_ctor s))) = s \<and>
   (suppressed s = 0 \<longrightarrow>
      suppressed (disable_failure_guard_dtor
        (disable_failure_guard_ctor (disable_failure_guard_ctor s))) \<noteq> 0 \<and>
      suppressed (disable_failure_guard_dtor (disable_failure_guard_dtor
        (disable_failure_guard_ctor (disable_failure_guard_ctor s)))) = 0)"
  by (simp add: disable_failure_guard_ctor_def disable_failure_guard_dtor_def)

text \<open>
  The nesting on the injector a thread starts with.
\<close>

theorem guards_nest_witness:
  "suppressed (disable_failure_guard_dtor (disable_failure_guard_ctor
      (disable_failure_guard_ctor (the_alloc_failure_injector ())))) \<noteq> 0 \<and>
   suppressed (disable_failure_guard_dtor (disable_failure_guard_dtor
      (disable_failure_guard_ctor (disable_failure_guard_ctor (the_alloc_failure_injector ()))))) = 0"
proof -
  have h: "suppressed (the_alloc_failure_injector ()) = 0"
    by (simp add: the_alloc_failure_injector_def)
  from guards_nest [of "the_alloc_failure_injector ()"] h show ?thesis by blast
qed

subsection \<open>What arming writes\<close>

text \<open>
  Claim C9, as the code has it. \<^verbatim>\<open>fail_after(count)\<close> sets \<open>fail_at\<close> to the sum of
  \<open>alloc_count\<close> and \<open>count\<close> modulo \<open>2 ^ 64\<close>, which is their arithmetic sum when that
  sum is below \<open>2 ^ 64\<close>; it resets \<open>failed\<close> to false and changes no other member; and
  arming again replaces the schedule of the previous arming.
\<close>

theorem fail_after_sets_wrapped_sum:
  "unat (fail_at (fail_after count s)) = (unat (alloc_count s) + unat count) mod 2 ^ 64 \<and>
   (unat (alloc_count s) + unat count < 2 ^ 64 \<longrightarrow>
      unat (fail_at (fail_after count s)) = unat (alloc_count s) + unat count) \<and>
   failed (fail_after count s) = False \<and>
   fail_after count s = s\<lparr>fail_at := fail_at (fail_after count s), failed := False\<rparr> \<and>
   fail_after count (fail_after count' s) = fail_after count s"
  by (simp add: fail_after_def unat_word_ariths)

text \<open>
  After one counted allocation point, \<^verbatim>\<open>fail_after(5)\<close> sets \<open>fail_at\<close> to \<open>6\<close>.
\<close>

theorem fail_after_sets_wrapped_sum_witness:
  "unat (fail_at (fail_after 5 (state_of (on_alloc_point (the_alloc_failure_injector ()))))) = 6 \<and>
   unat (alloc_count (state_of (on_alloc_point (the_alloc_failure_injector ())))) = 1"
proof -
  let ?s = "state_of (on_alloc_point (the_alloc_failure_injector ()))"
  have a: "unat (alloc_count ?s) = 1"
    by (simp add: on_alloc_point_def the_alloc_failure_injector_def uint64_max_neq_0)
  then have h: "unat (alloc_count ?s) + unat (5 :: uint64_t) < 2 ^ 64"
    by simp
  from fail_after_sets_wrapped_sum [of 5 ?s] h a show ?thesis
    by simp
qed

text \<open>
  The arithmetic sum is not always what is stored: after one counted allocation point,
  \<^verbatim>\<open>fail_after(UINT64_MAX)\<close> stores \<open>0\<close>, while the sum is \<open>2 ^ 64\<close>.
\<close>

theorem fail_after_sum_counterexample:
  "unat (fail_at (fail_after uint64_max
      (state_of (on_alloc_point (the_alloc_failure_injector ()))))) = 0 \<and>
   unat (alloc_count (state_of (on_alloc_point (the_alloc_failure_injector ())))) +
     unat uint64_max = 2 ^ 64"
proof -
  have one: "state_of (on_alloc_point (the_alloc_failure_injector ())) =
      \<lparr>alloc_count = 1, fail_at = uint64_max, on_alloc_failure = default_on_alloc_failure,
       failed = False, suppressed = 0, env = (), cb_invocations = 0\<rparr>"
    by (simp add: on_alloc_point_def the_alloc_failure_injector_def uint64_max_neq_0)
  show ?thesis
    unfolding one by (simp add: fail_after_def unat_uint64_max) (simp add: uint64_max_eq)
qed

subsection \<open>The count when the callback returns\<close>

text \<open>
  Claim C10. When the installed callback returns normally, the triggering hook call
  returns and leaves \<open>alloc_count\<close> one higher (line 66 runs after line 64), which is
  also what a hook call below the threshold does.
\<close>

theorem returning_trigger_is_counted:
  "(suppressed s = 0 \<and> fail_at s \<le> alloc_count s \<and> on_alloc_failure s (env s) = Returns e \<longrightarrow>
      returns (on_alloc_point s) \<and>
      alloc_count (state_of (on_alloc_point s)) = alloc_count s + 1) \<and>
   (suppressed s = 0 \<and> \<not> fail_at s \<le> alloc_count s \<longrightarrow>
      returns (on_alloc_point s) \<and>
      alloc_count (state_of (on_alloc_point s)) = alloc_count s + 1)"
  by (simp add: on_alloc_point_trigger_returns [where e = e] on_alloc_point_counted)

text \<open>
  A triggering call with a recorder installed, and a call below the threshold: both
  move \<open>alloc_count\<close> from \<open>0\<close> to \<open>1\<close>.
\<close>

theorem returning_trigger_is_counted_witness:
  "returns (on_alloc_point (set_alloc_failure_callback (\<lambda>n. Returns (Suc n))
      (fail_after 0 (the_alloc_failure_injector (0 :: nat))))) \<and>
   alloc_count (state_of (on_alloc_point (set_alloc_failure_callback (\<lambda>n. Returns (Suc n))
      (fail_after 0 (the_alloc_failure_injector (0 :: nat)))))) = 1 \<and>
   returns (on_alloc_point (the_alloc_failure_injector (0 :: nat))) \<and>
   alloc_count (state_of (on_alloc_point (the_alloc_failure_injector (0 :: nat)))) = 1"
proof -
  let ?s = "set_alloc_failure_callback (\<lambda>n. Returns (Suc n))
      (fail_after 0 (the_alloc_failure_injector (0 :: nat)))"
  let ?t = "the_alloc_failure_injector (0 :: nat)"
  have h1: "suppressed ?s = 0 \<and> fail_at ?s \<le> alloc_count ?s \<and>
      on_alloc_failure ?s (env ?s) = Returns 1"
    by (simp add: set_alloc_failure_callback_def fail_after_def the_alloc_failure_injector_def)
  have h2: "suppressed ?t = 0 \<and> \<not> fail_at ?t \<le> alloc_count ?t"
    by (simp add: the_alloc_failure_injector_def uint64_max_neq_0)
  have a: "alloc_count ?s = 0" "alloc_count ?t = 0"
    by (simp_all add: set_alloc_failure_callback_def fail_after_def the_alloc_failure_injector_def)
  from returning_trigger_is_counted [of ?s 1] returning_trigger_is_counted [of ?t 1] h1 h2 a
  show ?thesis by simp
qed

subsection \<open>The failure flag\<close>

text \<open>
  Claim C6. \<^verbatim>\<open>fail_after\<close> resets \<open>failed\<close> to false for every count, \<^verbatim>\<open>cancel\<close>
  leaves it as it is, and a triggering hook call sets it. Over any sequence of calls
  that follows a \<^verbatim>\<open>fail_after\<close> and contains no further \<^verbatim>\<open>fail_after\<close> (hook calls,
  \<^verbatim>\<open>cancel\<close>, the accessors, a change of callback, guards), \<open>failed\<close> is true at the end
  exactly when the callback was invoked during the sequence, that is, when a failure was
  triggered since the arming; and once true it stays true over such a sequence.
\<close>

theorem failed_iff_triggered_since_arming:
  "failed (fail_after count s) = False \<and>
   failed (cancel s) = failed s \<and>
   (suppressed s = 0 \<and> fail_at s \<le> alloc_count s \<longrightarrow> failed (state_of (on_alloc_point s))) \<and>
   (no_fail_after cs \<longrightarrow>
      failed (run cs (fail_after count s)) =
        (cb_invocations s < cb_invocations (run cs (fail_after count s))) \<and>
      (failed s \<longrightarrow> failed (run cs s)))"
proof -
  have "no_fail_after cs \<Longrightarrow> failed (run cs (fail_after count s)) =
      (cb_invocations s < cb_invocations (run cs (fail_after count s)))"
    using run_history [of cs "fail_after count s"] by (simp add: fail_after_def)
  moreover have "no_fail_after cs \<Longrightarrow> failed s \<Longrightarrow> failed (run cs s)"
    using run_history [of cs s] by simp
  ultimately show ?thesis
    by (simp add: fail_after_def cancel_def on_alloc_point_failed)
qed

text \<open>
  On the injector a thread starts with: armed with \<^verbatim>\<open>fail_after(0)\<close> the first hook
  call triggers and the flag survives \<^verbatim>\<open>cancel\<close>, the accessors and a further hook call;
  armed with \<^verbatim>\<open>fail_after(1)\<close> and cancelled after one hook call, nothing triggers and
  the flag stays false.
\<close>

theorem failed_iff_triggered_since_arming_witness:
  "failed (run [On_alloc_point, Cancel, Alloc_count, Failed, On_alloc_point]
      (fail_after 0 (the_alloc_failure_injector ()))) \<and>
   \<not> failed (run [On_alloc_point, Cancel, On_alloc_point]
      (fail_after 1 (the_alloc_failure_injector ()))) \<and>
   failed (state_of (on_alloc_point (fail_after 0 (the_alloc_failure_injector ()))))"
proof -
  let ?i = "the_alloc_failure_injector ()"
  let ?cs = "[On_alloc_point, Cancel, Alloc_count, Failed, On_alloc_point] :: unit call list"
  let ?ds = "[On_alloc_point, Cancel, On_alloc_point] :: unit call list"
  have n1: "no_fail_after ?cs" and n2: "no_fail_after ?ds"
    by simp_all
  have due: "suppressed (fail_after 0 ?i) = 0 \<and> fail_at (fail_after 0 ?i) \<le> alloc_count (fail_after 0 ?i)"
    by (simp add: fail_after_def the_alloc_failure_injector_def)
  have c1: "cb_invocations (run ?cs (fail_after 0 ?i)) = 1"
    by (simp add: on_alloc_point_def invoke_on_alloc_failure_def cancel_def fail_after_def
        the_alloc_failure_injector_def default_on_alloc_failure_def uint64_max_def)
  have c2: "cb_invocations (run ?ds (fail_after 1 ?i)) = 0"
    by (simp add: on_alloc_point_def invoke_on_alloc_failure_def cancel_def fail_after_def
        the_alloc_failure_injector_def default_on_alloc_failure_def uint64_max_le_iff)
  have c0: "cb_invocations ?i = 0"
    by (simp add: the_alloc_failure_injector_def)
  from failed_iff_triggered_since_arming [of 0 ?i ?cs]
    failed_iff_triggered_since_arming [of 1 ?i ?ds]
    failed_iff_triggered_since_arming [of 0 "fail_after 0 ?i" "[]"]
    n1 n2 due c1 c2 c0
  show ?thesis by simp
qed

subsection \<open>Disarming\<close>

text \<open>
  Claim C7, as the code has it. After \<^verbatim>\<open>cancel\<close>, whatever the state was, a sequence
  of calls with no \<^verbatim>\<open>fail_after\<close> among them never invokes the callback and never
  changes \<open>failed\<close>, and a run of \<open>n\<close> hook calls returns normally, provided
  \<open>alloc_count\<close> plus the number of hook calls stays below \<open>2 ^ 64\<close>: the disarmed threshold
  is the largest \<^verbatim>\<open>uint64_t\<close>, which \<open>alloc_count\<close> must not reach.
\<close>

theorem cancel_disarms:
  "(no_fail_after cs \<and> unat (alloc_count s) + hook_calls cs < 2 ^ 64 \<longrightarrow>
      cb_invocations (run cs (cancel s)) = cb_invocations s \<and>
      failed (run cs (cancel s)) = failed s) \<and>
   (unat (alloc_count s) + n < 2 ^ 64 \<longrightarrow>
      returns (on_alloc_points n (cancel s)) \<and>
      cb_invocations (state_of (on_alloc_points n (cancel s))) = cb_invocations s \<and>
      failed (state_of (on_alloc_points n (cancel s))) = failed s)"
proof -
  have "no_fail_after cs \<Longrightarrow> unat (alloc_count s) + hook_calls cs < 2 ^ 64 \<Longrightarrow>
      cb_invocations (run cs (cancel s)) = cb_invocations s \<and>
      failed (run cs (cancel s)) = failed s"
    using run_disarmed [of "cancel s" cs] by (simp add: cancel_def)
  moreover have "unat (alloc_count s) + n < 2 ^ 64 \<Longrightarrow>
      returns (on_alloc_points n (cancel s)) \<and>
      cb_invocations (state_of (on_alloc_points n (cancel s))) = cb_invocations s \<and>
      failed (state_of (on_alloc_points n (cancel s))) = failed s"
    using on_alloc_points_disarmed [of "cancel s" n] by (simp add: cancel_def)
  ultimately show ?thesis
    by blast
qed

text \<open>
  An armed injector is cancelled; three hook calls, one of them under a guard, trigger
  nothing.
\<close>

theorem cancel_disarms_witness:
  "cb_invocations (run [On_alloc_point, Guard_ctor, On_alloc_point, Guard_dtor, On_alloc_point]
      (cancel (fail_after 1 (the_alloc_failure_injector ())))) = 0 \<and>
   \<not> failed (run [On_alloc_point, Guard_ctor, On_alloc_point, Guard_dtor, On_alloc_point]
      (cancel (fail_after 1 (the_alloc_failure_injector ())))) \<and>
   returns (on_alloc_points 3 (cancel (fail_after 1 (the_alloc_failure_injector ())))) \<and>
   \<not> failed (state_of (on_alloc_points 3 (cancel (fail_after 1 (the_alloc_failure_injector ())))))"
proof -
  let ?s = "fail_after 1 (the_alloc_failure_injector ())"
  let ?cs = "[On_alloc_point, Guard_ctor, On_alloc_point, Guard_dtor, On_alloc_point] :: unit call list"
  have h1: "no_fail_after ?cs \<and> unat (alloc_count ?s) + hook_calls ?cs < 2 ^ 64"
    by (simp add: fail_after_def the_alloc_failure_injector_def)
  have h2: "unat (alloc_count ?s) + 3 < 2 ^ 64"
    by (simp add: fail_after_def the_alloc_failure_injector_def)
  have s: "cb_invocations ?s = 0" "\<not> failed ?s"
    by (simp_all add: fail_after_def the_alloc_failure_injector_def)
  from cancel_disarms [of ?cs ?s 3] h1 h2 s show ?thesis
    by simp
qed

text \<open>
  For every state the claim fails: when \<open>alloc_count\<close> is the largest \<^verbatim>\<open>uint64_t\<close>, the
  comparison of line 61 holds against the disarmed threshold, and the hook call after
  \<^verbatim>\<open>cancel\<close> throws.
\<close>

theorem cancel_at_uint64_max_counterexample:
  "on_alloc_point (cancel ((the_alloc_failure_injector ())\<lparr>alloc_count := uint64_max\<rparr>)) =
     Throws bad_alloc
       \<lparr>alloc_count = uint64_max, fail_at = uint64_max,
        on_alloc_failure = default_on_alloc_failure, failed = True, suppressed = 0,
        env = (), cb_invocations = 1\<rparr>"
  by (simp add: on_alloc_point_def invoke_on_alloc_failure_def cancel_def
      the_alloc_failure_injector_def default_on_alloc_failure_def)

subsection \<open>One failure for each arming\<close>

text \<open>
  Claim C8, as the code has it. Over a sequence of calls that follows a \<^verbatim>\<open>fail_after\<close>
  and contains no further \<^verbatim>\<open>fail_after\<close>, the callback is invoked at most once,
  provided \<open>alloc_count\<close> plus the number of hook calls stays below \<open>2 ^ 64\<close>. The reason
  is the second part: a triggering hook call leaves \<open>failed\<close> true and \<open>fail_at\<close> at the
  disarmed value and has invoked the callback once, whether the callback returned or
  threw.
\<close>

theorem callback_at_most_once_per_arming:
  "(no_fail_after cs \<and> unat (alloc_count s) + hook_calls cs < 2 ^ 64 \<longrightarrow>
      cb_invocations (run cs (fail_after count s)) \<le> Suc (cb_invocations s)) \<and>
   (suppressed s = 0 \<and> fail_at s \<le> alloc_count s \<longrightarrow>
      failed (state_of (on_alloc_point s)) \<and>
      fail_at (state_of (on_alloc_point s)) = uint64_max \<and>
      cb_invocations (state_of (on_alloc_point s)) = Suc (cb_invocations s))"
proof -
  have "no_fail_after cs \<Longrightarrow> unat (alloc_count s) + hook_calls cs < 2 ^ 64 \<Longrightarrow>
      cb_invocations (run cs (fail_after count s)) \<le> Suc (cb_invocations s)"
    using run_at_most_once [of cs "fail_after count s"] by (simp add: fail_after_def)
  then show ?thesis
    by (simp add: on_alloc_point_failed on_alloc_point_fail_at on_alloc_point_cb_invocations)
qed

text \<open>
  Armed with \<^verbatim>\<open>fail_after(1)\<close>, four hook calls and a \<^verbatim>\<open>cancel\<close> invoke the
  callback at most once; the hook call after \<^verbatim>\<open>fail_after(0)\<close> disarms the schedule.
\<close>

theorem callback_at_most_once_per_arming_witness:
  "cb_invocations (run [On_alloc_point, On_alloc_point, Cancel, On_alloc_point, On_alloc_point]
      (fail_after 1 (the_alloc_failure_injector ()))) \<le> 1 \<and>
   failed (state_of (on_alloc_point (fail_after 0 (the_alloc_failure_injector ())))) \<and>
   fail_at (state_of (on_alloc_point (fail_after 0 (the_alloc_failure_injector ())))) = uint64_max \<and>
   cb_invocations (state_of (on_alloc_point (fail_after 0 (the_alloc_failure_injector ())))) = 1"
proof -
  let ?i = "the_alloc_failure_injector ()"
  let ?cs = "[On_alloc_point, On_alloc_point, Cancel, On_alloc_point, On_alloc_point] :: unit call list"
  have h1: "no_fail_after ?cs \<and> unat (alloc_count ?i) + hook_calls ?cs < 2 ^ 64"
    by (simp add: the_alloc_failure_injector_def)
  have h2: "suppressed (fail_after 0 ?i) = 0 \<and>
      fail_at (fail_after 0 ?i) \<le> alloc_count (fail_after 0 ?i)"
    by (simp add: fail_after_def the_alloc_failure_injector_def)
  have c: "cb_invocations ?i = 0" "cb_invocations (fail_after 0 ?i) = 0"
    by (simp_all add: fail_after_def the_alloc_failure_injector_def)
  from callback_at_most_once_per_arming [of ?cs ?i 1]
    callback_at_most_once_per_arming [of "[]" "fail_after 0 ?i" 0] h1 h2 c
  show ?thesis by simp
qed

text \<open>
  Without the bound the claim fails: with \<open>alloc_count\<close> at the largest \<^verbatim>\<open>uint64_t\<close>,
  the default callback throws before line 66, the count stays where it is, and the next
  hook call triggers again against the disarmed threshold. Two hook calls after one
  \<^verbatim>\<open>fail_after(0)\<close> invoke the callback twice.
\<close>

theorem callback_twice_at_uint64_max_counterexample:
  "cb_invocations (run [On_alloc_point, On_alloc_point]
      (fail_after 0 ((the_alloc_failure_injector ())\<lparr>alloc_count := uint64_max\<rparr>))) = 2 \<and>
   cb_invocations (fail_after 0 ((the_alloc_failure_injector ())\<lparr>alloc_count := uint64_max\<rparr>)) = 0"
  by (simp add: on_alloc_point_def invoke_on_alloc_failure_def cancel_def fail_after_def
      the_alloc_failure_injector_def default_on_alloc_failure_def)

end
